theory Spec2Isabelle
  imports Complex_Main "HOL-Library.Sublist" "HOL-Library.Log_Nat" "HOL-Library.Word"
begin

section \<open>JavaScript numbers\<close>

text \<open>
  The component computes with JavaScript numbers (IEEE binary64). A finite number is
  modelled by the rational it denotes; every arithmetic result is rounded to 53
  significant bits, to nearest, ties to even (\<open>fl\<close>). The exponent range is not bounded
  (no overflow to infinity, no subnormals): pixel dimensions and byte sizes stay far
  inside it. Infinities and NaN arise only from a division by zero and are separate
  constructors. The sign of zero is not modelled.
\<close>

datatype jsnum = Num rat | PInf | NInf | NaN

definition expo :: "rat \<Rightarrow> int" where
  \<comment> \<open>the binary exponent \<open>e\<close> of a positive rational: \<open>2^e \<le> x < 2^(e+1)\<close>\<close>
  "expo x = (let (p, q) = quotient_of x; d = bitlen p - bitlen q
             in if power_int 2 d \<le> x then d else d - 1)"

definition rne :: "rat \<Rightarrow> int" where
  \<comment> \<open>round to the nearest integer, ties to even\<close>
  "rne y = (let f = \<lfloor>y\<rfloor>; d = y - of_int f
            in if d < 1 / 2 then f
               else if 1 / 2 < d then f + 1
               else if even f then f else f + 1)"

definition fl :: "rat \<Rightarrow> rat" where
  \<comment> \<open>rounding to binary64 precision: a multiple of \<open>2^(e-52)\<close>\<close>
  "fl x = (if x = 0 then 0
           else let u = power_int 2 (expo \<bar>x\<bar> - 52)
                in of_int (rne (x / u)) * u)"

definition js_sub :: "rat \<Rightarrow> rat \<Rightarrow> jsnum" where
  \<comment> \<open>\<open>a - b\<close> on finite numbers\<close>
  "js_sub a b = Num (fl (a - b))"

definition js_div :: "jsnum \<Rightarrow> rat \<Rightarrow> jsnum" where
  \<comment> \<open>\<open>a / b\<close> for a finite divisor \<open>b \<ge> 0\<close>; a zero divisor is \<open>+0\<close>\<close>
  "js_div a b =
     (case a of
        Num x \<Rightarrow> if b = 0 then (if x = 0 then NaN else if 0 < x then PInf else NInf)
                 else Num (fl (x / b))
      | PInf \<Rightarrow> PInf
      | NInf \<Rightarrow> NInf
      | NaN \<Rightarrow> NaN)"

definition js_mul :: "jsnum \<Rightarrow> jsnum \<Rightarrow> jsnum" where
  \<comment> \<open>\<open>a * b\<close>\<close>
  "js_mul a b =
     (case (a, b) of
        (Num x, Num y) \<Rightarrow> Num (fl (x * y))
      | (NaN, _) \<Rightarrow> NaN
      | (_, NaN) \<Rightarrow> NaN
      | (Num x, PInf) \<Rightarrow> if x = 0 then NaN else if 0 < x then PInf else NInf
      | (Num x, NInf) \<Rightarrow> if x = 0 then NaN else if 0 < x then NInf else PInf
      | (PInf, Num y) \<Rightarrow> if y = 0 then NaN else if 0 < y then PInf else NInf
      | (NInf, Num y) \<Rightarrow> if y = 0 then NaN else if 0 < y then NInf else PInf
      | (PInf, PInf) \<Rightarrow> PInf
      | (NInf, NInf) \<Rightarrow> PInf
      | (PInf, NInf) \<Rightarrow> NInf
      | (NInf, PInf) \<Rightarrow> NInf)"

definition js_less :: "jsnum \<Rightarrow> jsnum \<Rightarrow> bool" where
  \<comment> \<open>\<open>a < b\<close>: false as soon as one side is NaN\<close>
  "js_less a b =
     (case (a, b) of
        (Num x, Num y) \<Rightarrow> x < y
      | (NInf, Num _) \<Rightarrow> True
      | (NInf, PInf) \<Rightarrow> True
      | (Num _, PInf) \<Rightarrow> True
      | _ \<Rightarrow> False)"

definition js_min :: "jsnum \<Rightarrow> jsnum \<Rightarrow> jsnum" where
  \<comment> \<open>\<open>Math.min(a, b)\<close>: NaN as soon as one argument is NaN\<close>
  "js_min a b =
     (if a = NaN \<or> b = NaN then NaN
      else if js_less b a then b else a)"

definition js_round :: "jsnum \<Rightarrow> jsnum" where
  \<comment> \<open>\<open>Math.round\<close>: the nearest integer, a tie going towards \<open>+\<infinity>\<close>\<close>
  "js_round a = (case a of Num x \<Rightarrow> Num (of_int \<lfloor>x + 1 / 2\<rfloor>) | _ \<Rightarrow> a)"

definition to_uint32 :: "jsnum \<Rightarrow> nat" where
  \<comment> \<open>the conversion of a number to a 32-bit unsigned attribute value: NaN and the
      infinities give \<open>0\<close>, a finite number is truncated towards zero and taken modulo
      \<open>2^32\<close>\<close>
  "to_uint32 v =
     (case v of
        Num x \<Rightarrow> nat ((if 0 \<le> x then \<lfloor>x\<rfloor> else \<lceil>x\<rceil>) mod 2 ^ 32)
      | _ \<Rightarrow> 0)"

definition to_pixels :: "nat \<Rightarrow> jsnum \<Rightarrow> nat" where
  \<comment> \<open>what \<open>canvas.width = v\<close> (or \<open>canvas.height = v\<close>) makes the size of the canvas: the
      converted value when it is at most \<open>2^31 - 1\<close>, and else the default of the
      attribute, \<open>300\<close> for the width and \<open>150\<close> for the height\<close>
  "to_pixels dflt v = (let n = to_uint32 v in if n \<le> 2147483647 then n else dflt)"

section \<open>Data model\<close>

text \<open>
  A \<open>File\<close> as the component reads it: \<open>name\<close>, \<open>type\<close> (the MIME type), \<open>size\<close>
  (bytes) and its content. A \<open>Blob\<close> has a \<open>size\<close>, a \<open>type\<close> and content.
\<close>

record File =
  name :: string
  mime :: string
  fsize :: nat
  fdata :: "nat list"

record Blob =
  bsize :: nat
  btype :: string
  bdata :: "nat list"

text \<open>The interface \<open>CompressedImage\<close>; its field \<open>id\<close> is \<open>id'\<close> here.\<close>

record CompressedImage =
  id' :: string
  originalFile :: File
  compressedBlob :: "Blob option"
  originalSize :: nat
  compressedSize :: "nat option"
  preview :: string

text \<open>
  The canvas after \<open>canvas.width = width; canvas.height = height;
  ctx.drawImage(img, 0, 0, width, height)\<close>: its pixel size, and the image drawn with the
  destination size it was drawn at.
\<close>

record canvas =
  cwidth :: nat
  cheight :: nat
  drawn :: "File \<times> jsnum \<times> jsnum"

text \<open>
  The host (browser) facilities the component calls:
  \<^item> \<open>decode\<close>: loading a file into an \<open>Image\<close>. \<open>Some (W, H)\<close> when \<open>onload\<close> fires, with
    the native size \<open>img.width\<close>, \<open>img.height\<close>; \<open>None\<close> when the file does not decode,
    in which case \<open>onload\<close> never fires. The native size of an image that decodes is
    below \<open>2^31\<close> in each dimension, so it is a pair of 31-bit words;
  \<^item> \<open>toBlob\<close>: the argument \<open>canvas.toBlob\<close> passes to its callback for a MIME type and
    a quality, \<open>None\<close> being \<open>null\<close>;
  \<^item> \<open>random_id\<close>: \<open>Math.random().toString(36).substr(2, 9)\<close> at the \<open>k\<close>-th file of an
    upload event;
  \<^item> \<open>createObjectURL\<close>: \<open>URL.createObjectURL\<close> at the \<open>k\<close>-th file of an upload event.
\<close>

record host =
  decode :: "File \<Rightarrow> (31 word \<times> 31 word) option"
  toBlob :: "canvas \<Rightarrow> string \<Rightarrow> jsnum \<Rightarrow> Blob option"
  random_id :: "nat \<Rightarrow> string"
  createObjectURL :: "nat \<Rightarrow> File \<Rightarrow> string"

text \<open>A promise, by how it ends: fulfilled, rejected, or never settled.\<close>

datatype ('e, 'a) promise = Resolved 'a | Rejected 'e | Pending

datatype js_error = TypeError

datatype toast = CompressaoConcluida nat | ErroNaCompressao

text \<open>
  The component's state (its \<open>useState\<close> cells; \<open>quality\<close> is \<open>quality[0]\<close>) and the
  toasts shown so far. The settings \<open>quality\<close>, \<open>maxWidth\<close> and \<open>maxHeight\<close> are natural
  numbers, the values that the slider (in steps of 5) and the two number inputs (in steps
  of 1) offer.
\<close>

record state =
  images :: "CompressedImage list"
  isProcessing :: bool
  quality :: nat
  outputFormat :: string
  maxWidth :: nat
  maxHeight :: nat
  maintainAspectRatio :: bool
  toasts :: "toast list"

section \<open>handleFileUpload\<close>

definition upload_file :: "host \<Rightarrow> state \<Rightarrow> nat \<times> File \<Rightarrow> state" where
  \<comment> \<open>the body of \<open>files.forEach\<close> at the \<open>k\<close>-th file\<close>
  "upload_file h st kf =
     (let (k, f) = kf in
      if prefix ''image/'' (mime f)
      then st\<lparr>images := images st @
                [\<lparr>id' = random_id h k, originalFile = f, compressedBlob = None,
                  originalSize = fsize f, compressedSize = None,
                  preview = createObjectURL h k f\<rparr>]\<rparr>
      else st)"

definition handleFileUpload :: "host \<Rightarrow> File list option \<Rightarrow> state \<Rightarrow> state" where
  \<comment> \<open>\<open>event.target.files\<close> is \<open>None\<close> when it is \<open>null\<close>\<close>
  "handleFileUpload h files st =
     foldl (upload_file h) st (enumerate 0 (case files of None \<Rightarrow> [] | Some fs \<Rightarrow> fs))"

section \<open>compressImage\<close>

definition new_dimensions :: "bool \<Rightarrow> nat \<Rightarrow> nat \<Rightarrow> nat \<Rightarrow> nat \<Rightarrow> jsnum \<times> jsnum" where
  \<comment> \<open>\<open>width\<close> and \<open>height\<close> after "Calculate new dimensions", from the native size
      \<open>W\<close>, \<open>H\<close>\<close>
  "new_dimensions maintain maxW maxH W H =
     (if maintain then
        let ratio = js_min (js_div (Num (of_nat maxW)) (of_nat W))
                           (js_div (Num (of_nat maxH)) (of_nat H))
        in if js_less ratio (Num 1)
           then (js_mul (Num (of_nat W)) ratio, js_mul (Num (of_nat H)) ratio)
           else (Num (of_nat W), Num (of_nat H))
      else (Num (of_nat maxW), Num (of_nat maxH)))"

definition output_dimensions ::
  "bool \<Rightarrow> nat \<Rightarrow> nat \<Rightarrow> 31 word \<Rightarrow> 31 word \<Rightarrow> nat \<times> nat" where
  \<comment> \<open>the size of the canvas that is encoded, \<open>canvas.width\<close> and \<open>canvas.height\<close>, for
      a source of native size \<open>W\<close>, \<open>H\<close>\<close>
  "output_dimensions maintain maxW maxH W H =
     (let (width, height) = new_dimensions maintain maxW maxH (unat W) (unat H)
      in (to_pixels 300 width, to_pixels 150 height))"

definition compressImage ::
  "host \<Rightarrow> bool \<Rightarrow> File \<Rightarrow> nat \<Rightarrow> nat \<Rightarrow> nat \<Rightarrow> string \<Rightarrow> ('e, Blob option) promise" where
  \<comment> \<open>the second argument is \<open>maintainAspectRatio\<close>, which the callback closes over; the
      promise has no \<open>reject\<close> and no \<open>onerror\<close> handler\<close>
  "compressImage h maintain f q maxW maxH format =
     (case decode h f of
        None \<Rightarrow> Pending
      | Some (W, H) \<Rightarrow>
          let (width, height) = new_dimensions maintain maxW maxH (unat W) (unat H);
              c = \<lparr>cwidth = to_pixels 300 width, cheight = to_pixels 150 height,
                   drawn = (f, width, height)\<rparr>
          in Resolved (toBlob h c (''image/'' @ format) (js_div (Num (of_nat q)) 100)))"

section \<open>handleCompress\<close>

definition compress_entry :: "host \<Rightarrow> state \<Rightarrow> CompressedImage \<Rightarrow> (js_error, CompressedImage) promise" where
  \<comment> \<open>the async callback of \<open>images.map\<close>; reading \<open>compressed.size\<close> of \<open>null\<close> throws\<close>
  "compress_entry h st img =
     (case compressedBlob img of
        None \<Rightarrow>
          (case compressImage h (maintainAspectRatio st) (originalFile img) (quality st)
                  (maxWidth st) (maxHeight st) (outputFormat st) of
             Resolved (Some compressed) \<Rightarrow>
               Resolved (img\<lparr>compressedBlob := Some compressed,
                             compressedSize := Some (bsize compressed)\<rparr>)
           | Resolved None \<Rightarrow> Rejected TypeError
           | Rejected e \<Rightarrow> Rejected e
           | Pending \<Rightarrow> Pending)
      | Some _ \<Rightarrow> Resolved img)"

fun promise_all :: "('e, 'a) promise list \<Rightarrow> ('e, 'a list) promise" where
  \<comment> \<open>\<open>Promise.all\<close>: rejected as soon as one promise is rejected (here with the first
      rejection in list order), fulfilled when all are, never settled otherwise\<close>
  "promise_all [] = Resolved []"
| "promise_all (Rejected e # ps) = Rejected e"
| "promise_all (Pending # ps) =
     (case promise_all ps of Rejected e \<Rightarrow> Rejected e | _ \<Rightarrow> Pending)"
| "promise_all (Resolved x # ps) =
     (case promise_all ps of
        Resolved xs \<Rightarrow> Resolved (x # xs)
      | Rejected e \<Rightarrow> Rejected e
      | Pending \<Rightarrow> Pending)"

definition handleCompress :: "host \<Rightarrow> state \<Rightarrow> state" where
  \<comment> \<open>the state once nothing more happens: when \<open>Promise.all\<close> never settles, the
      \<open>await\<close> never resumes and neither \<open>catch\<close> nor \<open>finally\<close> runs\<close>
  "handleCompress h st =
     (let st1 = st\<lparr>isProcessing := True\<rparr> in
      case promise_all (map (compress_entry h st) (images st)) of
        Resolved compressedImages \<Rightarrow>
          st1\<lparr>images := compressedImages,
              toasts := toasts st1 @ [CompressaoConcluida (length (images st))],
              isProcessing := False\<rparr>
      | Rejected e \<Rightarrow>
          st1\<lparr>toasts := toasts st1 @ [ErroNaCompressao], isProcessing := False\<rparr>
      | Pending \<Rightarrow> st1)"

section \<open>handleDownload\<close>

fun js_split :: "char \<Rightarrow> string \<Rightarrow> string list" where
  \<comment> \<open>\<open>s.split(c)\<close> for a one-character separator\<close>
  "js_split c [] = [[]]"
| "js_split c (x # xs) =
     (if x = c then [] # js_split c xs
      else (case js_split c xs of [] \<Rightarrow> [[x]] | y # ys \<Rightarrow> (x # y) # ys))"

definition download_name :: "string \<Rightarrow> string \<Rightarrow> string" where
  \<comment> \<open>the template \<open>compressed_${name.split('.')[0]}.${outputFormat}\<close>; element 0 of an
      empty array would print as \<open>undefined\<close>\<close>
  "download_name nm format =
     ''compressed_'' @ (case js_split CHR ''.'' nm of [] \<Rightarrow> ''undefined'' | x # _ \<Rightarrow> x)
       @ ''.'' @ format"

record download =
  href :: Blob
  filename :: string

definition handleDownload :: "state \<Rightarrow> CompressedImage \<Rightarrow> download option" where
  \<comment> \<open>the anchor that is clicked: the blob behind its \<open>href\<close> and its \<open>download\<close>
      attribute; \<open>None\<close> for the early return\<close>
  "handleDownload st img =
     (case compressedBlob img of
        None \<Rightarrow> None
      | Some b \<Rightarrow>
          Some \<lparr>href = b, filename = download_name (name (originalFile img)) (outputFormat st)\<rparr>)"

section \<open>calculateSavings\<close>

definition calculateSavings :: "nat \<Rightarrow> nat option \<Rightarrow> jsnum" where
  \<comment> \<open>\<open>compressed\<close> is \<open>None\<close> when \<open>undefined\<close>; \<open>!compressed\<close> holds for \<open>undefined\<close>
      and for \<open>0\<close>\<close>
  "calculateSavings original compressed =
     (case compressed of
        None \<Rightarrow> Num 0
      | Some c \<Rightarrow>
          if c = 0 then Num 0
          else js_round (js_mul (js_div (js_sub (of_nat original) (of_nat c)) (of_nat original))
                           (Num 100)))"


section \<open>The specification's own notions\<close>

text \<open>
  The savings formula as the specification writes it,
  \<open>round((original - compressed) / original * 100)\<close>, evaluated in the same
  arithmetic as the component's.
\<close>

definition savings_formula :: "nat \<Rightarrow> nat \<Rightarrow> jsnum" where
  "savings_formula original compressed =
     js_round (js_mul (js_div (js_sub (of_nat original) (of_nat compressed)) (of_nat original))
                 (Num 100))"

text \<open>The stem of a file name: the name with its final extension removed.\<close>

definition stem :: "string \<Rightarrow> string" where
  "stem nm =
     (if CHR ''.'' \<in> set nm then rev (tl (dropWhile (\<lambda>c. c \<noteq> CHR ''.'') (rev nm))) else nm)"

text \<open>The error taxonomy of the specification.\<close>

datatype TransformError = DecodeError | EncodeError | InvalidSettings

section \<open>A concrete host and concrete inputs\<close>

text \<open>
  A host for evaluating the component on examples. A file decodes when its content
  starts with two numbers, which are then its native width and height; a canvas without
  pixels encodes to \<open>null\<close>, as \<open>toBlob\<close> does, any other to a blob.
\<close>

definition example_host :: host where
  "example_host =
     \<lparr>decode = (\<lambda>f. case fdata f of W # H # _ \<Rightarrow> Some (of_nat W, of_nat H) | _ \<Rightarrow> None),
      toBlob = (\<lambda>c t q. if cwidth c = 0 \<or> cheight c = 0 then None
                           else Some \<lparr>bsize = cwidth c * cheight c div 8 + 1, btype = t,
                                      bdata = [cwidth c, cheight c]\<rparr>),
      random_id = (\<lambda>k. replicate (Suc k) CHR ''x''),
      createObjectURL = (\<lambda>k f. ''blob:'' @ name f)\<rparr>"

definition photo :: "string \<Rightarrow> nat \<Rightarrow> nat \<Rightarrow> File" where
  \<comment> \<open>a decodable image file of the given native size\<close>
  "photo nm W H = \<lparr>name = nm, mime = ''image/jpeg'', fsize = W + H, fdata = [W, H]\<rparr>"

definition corrupt :: "string \<Rightarrow> File" where
  \<comment> \<open>an image file that does not decode\<close>
  "corrupt nm = \<lparr>name = nm, mime = ''image/png'', fsize = 7, fdata = []\<rparr>"

definition entry :: "string \<Rightarrow> File \<Rightarrow> CompressedImage" where
  \<comment> \<open>a list entry as \<open>handleFileUpload\<close> creates it\<close>
  "entry i f = \<lparr>id' = i, originalFile = f, compressedBlob = None, originalSize = fsize f,
                compressedSize = None, preview = ''blob:'' @ name f\<rparr>"

definition initial_state :: state where
  \<comment> \<open>the initial values of the \<open>useState\<close> cells\<close>
  "initial_state =
     \<lparr>images = [], isProcessing = False, quality = 80, outputFormat = ''jpeg'',
      maxWidth = 1920, maxHeight = 1080, maintainAspectRatio = True, toasts = []\<rparr>"

definition batch_of_three :: state where
  \<comment> \<open>three uploaded sources, the second of which is corrupt\<close>
  "batch_of_three =
     initial_state\<lparr>images := [entry ''a'' (photo ''one.jpg'' 4000 2000),
                              entry ''b'' (corrupt ''two.png''),
                              entry ''c'' (photo ''three.jpg'' 800 600)]\<rparr>"

definition example_blob :: Blob where
  "example_blob = \<lparr>bsize = 60001, btype = ''image/jpeg'', bdata = [800, 600]\<rparr>"

definition compressed_entry :: "string \<Rightarrow> File \<Rightarrow> CompressedImage" where
  \<comment> \<open>a list entry that already carries a result\<close>
  "compressed_entry i f =
     (entry i f)\<lparr>compressedBlob := Some example_blob, compressedSize := Some (bsize example_blob)\<rparr>"

definition batch_with_sliver :: state where
  \<comment> \<open>three decodable sources; the second is 4000 pixels wide and 2 pixels high\<close>
  "batch_with_sliver =
     initial_state\<lparr>images := [entry ''a'' (photo ''one.jpg'' 800 600),
                              entry ''b'' (photo ''line.jpg'' 4000 2),
                              entry ''c'' (photo ''three.jpg'' 800 600)]\<rparr>"

definition half_done :: state where
  \<comment> \<open>one entry that is already compressed, and one whose source is corrupt\<close>
  "half_done =
     initial_state\<lparr>images := [compressed_entry ''a'' (photo ''one.jpg'' 800 600),
                              entry ''b'' (corrupt ''two.png'')]\<rparr>"

section \<open>Rounding to binary64 precision\<close>

text \<open>
  Three facts about \<open>fl\<close> carry the proofs below: it is monotone, it leaves every
  natural number below \<open>2^53\<close> unchanged, and its relative error is at most \<open>2^-53\<close>.
\<close>

lemma bitlen_ge1: "0 < p \<Longrightarrow> 1 \<le> bitlen p"
  using bitlen_eq_zero_iff [of p] bitlen_nonneg [of p] by linarith

lemma bitlen_rat_bounds:
  assumes "0 < p"
  shows "2 powi (bitlen p - 1) \<le> (of_int p :: rat)" and "(of_int p :: rat) < 2 powi (bitlen p)"
proof -
  have b: "1 \<le> bitlen p" using assms by (rule bitlen_ge1)
  have "2 ^ nat (bitlen p - 1) \<le> p" and "p < 2 ^ nat (bitlen p)"
    using bitlen_bounds [OF assms] by simp_all
  then have "(of_int (2 ^ nat (bitlen p - 1)) :: rat) \<le> of_int p"
    and "(of_int p :: rat) < of_int (2 ^ nat (bitlen p))"
    by (simp_all only: of_int_le_iff of_int_less_iff)
  then show "2 powi (bitlen p - 1) \<le> (of_int p :: rat)"
    and "(of_int p :: rat) < 2 powi (bitlen p)"
    using b by (simp_all add: power_int_nonneg_exp)
qed

lemma expo_bounds:
  assumes "0 < x"
  shows "2 powi (expo x) \<le> x" and "x < 2 powi (expo x + 1)"
proof -
  obtain p q where pq: "quotient_of x = (p, q)" by (cases "quotient_of x")
  have q: "0 < q" using pq quotient_of_denom_pos by blast
  have x: "x = of_int p / of_int q" using pq quotient_of_div by blast
  have p: "0 < p" using assms q x by (simp add: zero_less_divide_iff)
  define d where "d = bitlen p - bitlen q"
  have e: "expo x = (if 2 powi d \<le> x then d else d - 1)"
    by (simp add: expo_def pq d_def Let_def)
  have qr: "0 < (of_int q :: rat)" using q by simp
  have lo: "2 powi (d - 1) \<le> x"
  proof -
    have "2 powi (d - 1) * (of_int q :: rat) \<le> 2 powi (d - 1) * 2 powi (bitlen q)"
      using bitlen_rat_bounds(2) [OF q] by (intro mult_left_mono) simp_all
    also have "\<dots> = 2 powi (bitlen p - 1)"
      by (simp add: d_def flip: power_int_add)
    also have "\<dots> \<le> of_int p" using bitlen_rat_bounds(1) [OF p] .
    finally show ?thesis using qr by (simp add: x pos_le_divide_eq)
  qed
  have hi: "x < 2 powi (d + 1)"
  proof -
    have "(of_int p :: rat) < 2 powi (bitlen p)" using bitlen_rat_bounds(2) [OF p] .
    also have "\<dots> = 2 powi (d + 1) * 2 powi (bitlen q - 1)"
      by (simp add: d_def flip: power_int_add)
    also have "\<dots> \<le> 2 powi (d + 1) * of_int q"
      using bitlen_rat_bounds(1) [OF q] by (intro mult_left_mono) simp_all
    finally show ?thesis using qr by (simp add: x pos_divide_less_eq)
  qed
  show "2 powi (expo x) \<le> x" using lo by (simp add: e)
  show "x < 2 powi (expo x + 1)" using hi by (simp add: e)
qed

lemma pow2_less_imp_less:
  assumes "(2::rat) powi m < 2 powi n"
  shows "m < n"
proof (rule ccontr)
  assume "\<not> m < n"
  then have "n \<le> m" by simp
  then have "(2::rat) powi n \<le> 2 powi m" by (intro power_int_increasing) simp_all
  with assms show False by simp
qed

lemma expo_unique:
  assumes "2 powi e \<le> x" and "x < 2 powi (e + 1)"
  shows "expo x = e"
proof -
  have x: "0 < x" using assms(1) zero_less_power_int [of "2::rat" e] by linarith
  have "(2::rat) powi e < 2 powi (expo x + 1)"
    using assms(1) expo_bounds(2) [OF x] by linarith
  then have 1: "e < expo x + 1"
    by (rule pow2_less_imp_less)
  have "(2::rat) powi (expo x) < 2 powi (e + 1)"
    using assms(2) expo_bounds(1) [OF x] by linarith
  then have 2: "expo x < e + 1"
    by (rule pow2_less_imp_less)
  from 1 2 show ?thesis by linarith
qed

lemma expo_mono:
  assumes "0 < x" and "x \<le> y"
  shows "expo x \<le> expo y"
proof -
  have y: "0 < y" using assms by linarith
  have "(2::rat) powi (expo x) < 2 powi (expo y + 1)"
    using expo_bounds(1) [OF assms(1)] expo_bounds(2) [OF y] assms(2) by linarith
  then have "expo x < expo y + 1"
    by (rule pow2_less_imp_less)
  then show ?thesis by linarith
qed

lemma rne_cases: "rne y = \<lfloor>y\<rfloor> \<or> rne y = \<lfloor>y\<rfloor> + 1"
  by (simp add: rne_def Let_def)


lemma rne_of_int [simp]: "rne (of_int n) = n"
  by (simp add: rne_def Let_def)

lemma rne_mono:
  assumes "x \<le> y"
  shows "rne x \<le> rne y"
proof (cases "\<lfloor>x\<rfloor> = \<lfloor>y\<rfloor>")
  case True
  then show ?thesis using assms by (auto simp: rne_def Let_def)
next
  case False
  then have "\<lfloor>x\<rfloor> + 1 \<le> \<lfloor>y\<rfloor>" using assms floor_mono [OF assms] by linarith
  moreover have "rne x \<le> \<lfloor>x\<rfloor> + 1" using rne_cases [of x] by linarith
  moreover have "\<lfloor>y\<rfloor> \<le> rne y" using rne_cases [of y] by linarith
  ultimately show ?thesis by linarith
qed

lemma fl_pos_eq:
  assumes "0 < x"
  shows "fl x = of_int (rne (x / 2 powi (expo x - 52))) * 2 powi (expo x - 52)"
  using assms by (simp add: fl_def Let_def)


lemma fl_lower:
  assumes "0 < x"
  shows "2 powi (expo x) \<le> fl x"
proof -
  define u :: rat where "u = 2 powi (expo x - 52)"
  have u: "0 < u" by (simp add: u_def)
  have pu: "(2::rat) powi (expo x) = 2 ^ 52 * u"
  proof -
    have "(2::rat) powi (expo x - 52) = 2 powi (expo x) / 2 powi 52"
      by (rule power_int_diff) simp
    then show ?thesis by (simp add: u_def)
  qed
  have "(2::rat) ^ 52 \<le> x / u"
    using expo_bounds(1) [OF assms] u by (simp add: pu pos_le_divide_eq)
  then have "rne (of_int (2 ^ 52)) \<le> rne (x / u)"
    by (intro rne_mono) simp
  then have "(2::int) ^ 52 \<le> rne (x / u)" by (simp only: rne_of_int)
  then have "(of_int (2 ^ 52) :: rat) \<le> of_int (rne (x / u))"
    by (simp only: of_int_le_iff)
  then have "(2::rat) ^ 52 * u \<le> of_int (rne (x / u)) * u"
    using u by (intro mult_right_mono) simp_all
  then show ?thesis by (simp only: pu fl_pos_eq [OF assms] u_def)
qed

lemma fl_upper:
  assumes "0 < x"
  shows "fl x \<le> 2 powi (expo x + 1)"
proof -
  define u :: rat where "u = 2 powi (expo x - 52)"
  have u: "0 < u" by (simp add: u_def)
  have pu: "(2::rat) powi (expo x + 1) = 2 ^ 53 * u"
  proof -
    have "(2::rat) powi (expo x - 52 + 53) = 2 powi (expo x - 52) * 2 powi 53"
      by (rule power_int_add) simp
    then show ?thesis by (simp add: u_def ac_simps)
  qed
  have "x / u \<le> (2::rat) ^ 53"
    using expo_bounds(2) [OF assms] u by (simp add: pu pos_divide_le_eq)
  then have "rne (x / u) \<le> rne (of_int (2 ^ 53))"
    by (intro rne_mono) simp
  then have "rne (x / u) \<le> (2::int) ^ 53" by (simp only: rne_of_int)
  then have "(of_int (rne (x / u)) :: rat) \<le> of_int (2 ^ 53)"
    by (simp only: of_int_le_iff)
  then have "of_int (rne (x / u)) * u \<le> (2::rat) ^ 53 * u"
    using u by (intro mult_right_mono) simp_all
  then show ?thesis by (simp only: pu fl_pos_eq [OF assms] u_def)
qed

lemma fl_pos:
  assumes "0 < x"
  shows "0 < fl x"
  using fl_lower [OF assms] zero_less_power_int [of "2::rat" "expo x"] by linarith

lemma fl_mono:
  assumes "0 \<le> x" and "x \<le> y"
  shows "fl x \<le> fl y"
proof (cases "x = 0")
  case True
  show ?thesis
  proof (cases "y = 0")
    case True
    with \<open>x = 0\<close> show ?thesis by simp
  next
    case False
    then have "0 < y" using assms by linarith
    then show ?thesis using fl_pos [of y] \<open>x = 0\<close> by (simp add: fl_def)
  qed
next
  case False
  then have x: "0 < x" using assms by linarith
  then have y: "0 < y" using assms by linarith
  have le: "expo x \<le> expo y" using x assms(2) by (rule expo_mono)
  show ?thesis
  proof (cases "expo x = expo y")
    case True
    define u :: rat where "u = 2 powi (expo y - 52)"
    have u: "0 < u" by (simp add: u_def)
    have "x / u \<le> y / u" using assms(2) u by (simp add: divide_right_mono)
    then have "rne (x / u) \<le> rne (y / u)" by (rule rne_mono)
    then have "(of_int (rne (x / u)) :: rat) \<le> of_int (rne (y / u))" by simp
    then have "of_int (rne (x / u)) * u \<le> of_int (rne (y / u)) * u"
      using u by (intro mult_right_mono) simp_all
    then show ?thesis by (simp add: fl_pos_eq [OF x] fl_pos_eq [OF y] True u_def)
  next
    case False
    then have "expo x + 1 \<le> expo y" using le by linarith
    then have "(2::rat) powi (expo x + 1) \<le> 2 powi (expo y)"
      by (intro power_int_increasing) simp_all
    then show ?thesis using fl_upper [OF x] fl_lower [OF y] by linarith
  qed
qed

lemma fl_of_nat:
  assumes "n < 2 ^ 53"
  shows "fl (of_nat n) = of_nat n"
proof (cases "n = 0")
  case True
  then show ?thesis by (simp add: fl_def)
next
  case False
  define x :: rat where "x = of_nat n"
  have x: "0 < x" using False by (simp add: x_def)
  have "x < 2 ^ 53" using assms unfolding x_def
    by (metis of_nat_less_iff of_nat_numeral of_nat_power)
  then have "(2::rat) powi (expo x) < 2 powi 53"
    using expo_bounds(1) [OF x] by simp
  then have "expo x < 53" by (rule pow2_less_imp_less)
  define k where "k = nat (52 - expo x)"
  have k: "expo x - 52 = - int k" using \<open>expo x < 53\<close> by (simp add: k_def)
  have u: "(2::rat) powi (expo x - 52) = 1 / 2 ^ k"
    by (simp add: k power_int_minus_divide)
  have "x / (2 powi (expo x - 52)) = x * 2 ^ k"
    by (simp add: u)
  also have "\<dots> = of_int (int n * 2 ^ k)"
    by (simp add: x_def)
  finally have "rne (x / (2 powi (expo x - 52))) = int n * 2 ^ k"
    by (simp only: rne_of_int)
  then have "fl x = of_int (int n * 2 ^ k) * (1 / 2 ^ k)"
    by (simp only: fl_pos_eq [OF x] u)
  also have "\<dots> = x"
    by (simp add: x_def)
  finally have "fl x = x" .
  then show ?thesis by (simp add: x_def)
qed


lemma fl_zero [simp]: "fl 0 = 0"
  by (simp add: fl_def)


lemma fl_one [simp]: "fl 1 = 1"
  using fl_of_nat [of 1] by simp



section \<open>Target dimensions\<close>






lemma ratio_not_less_1:
  assumes "W \<le> maxW"
  shows "\<not> js_less (js_div (Num (of_nat maxW)) (of_nat W)) (Num 1)"
proof (cases "W = 0")
  case True
  then show ?thesis by (simp add: js_div_def js_less_def)
next
  case False
  then have "(1::rat) \<le> of_nat maxW / of_nat W" using assms by simp
  then have "fl 1 \<le> fl (of_nat maxW / of_nat W)" by (intro fl_mono) simp_all
  then show ?thesis using False by (simp add: js_div_def js_less_def)
qed



text \<open>
  The size of a canvas: a number below \<open>2^31\<close> is stored with its fraction cut off.
\<close>

lemma unat_31: "unat (W :: 31 word) < 2 ^ 31"
  using unsigned_less [of W, where ?'a = nat] by simp

lemma to_pixels_small:
  assumes "0 \<le> x" and "nat \<lfloor>x\<rfloor> < 2 ^ 31"
  shows "to_pixels d (Num x) = nat \<lfloor>x\<rfloor>"
proof -
  have f: "0 \<le> \<lfloor>x\<rfloor>" using assms(1) by simp
  have "\<lfloor>x\<rfloor> < 2 ^ 31" using assms(2) f by (simp add: nat_less_iff)
  then have "\<lfloor>x\<rfloor> mod 2 ^ 32 = \<lfloor>x\<rfloor>" using f by simp
  then have "to_uint32 (Num x) = nat \<lfloor>x\<rfloor>" using assms(1) by (simp add: to_uint32_def)
  then show ?thesis using assms(2) by (simp add: to_pixels_def)
qed

lemma to_pixels_of_nat:
  assumes "n < 2 ^ 31"
  shows "to_pixels d (Num (of_nat n)) = n"
  using to_pixels_small [of "of_nat n" d] assms by simp

lemma to_pixels_numeral:
  assumes "numeral k < (2 ^ 31 :: nat)"
  shows "to_pixels d (Num (numeral k)) = numeral k"
  using to_pixels_of_nat [OF assms, of d] by simp

lemma to_pixels_zero: "to_pixels d (Num 0) = 0"
  by (simp add: to_pixels_def to_uint32_def)

text \<open>
  \<open>output_dimensions\<close> is the size of the canvas that \<open>compressImage\<close> hands to the
  encoder.
\<close>

lemma compressImage_canvas:
  assumes "decode h f = Some (W, H)"
  shows "\<exists>c. compressImage h m f q maxW maxH fmt
               = Resolved (toBlob h c (''image/'' @ fmt) (js_div (Num (of_nat q)) 100)) \<and>
             (cwidth c, cheight c) = output_dimensions m maxW maxH W H"
proof -
  obtain width height where n: "new_dimensions m maxW maxH (unat W) (unat H) = (width, height)"
    by (cases "new_dimensions m maxW maxH (unat W) (unat H)")
  show ?thesis
    by (rule exI [of _ "\<lparr>cwidth = to_pixels 300 width, cheight = to_pixels 150 height,
                          drawn = (f, width, height)\<rparr>"])
       (simp add: compressImage_def output_dimensions_def assms n)
qed

text \<open>
  The component on concrete sizes, evaluated. The first two are the scenarios of the
  specification.
\<close>

lemma nd_4000_2000: "new_dimensions True 1920 1080 4000 2000 = (Num 1920, Num 960)"
  unfolding new_dimensions_def of_nat_numeral by code_simp

lemma nd_800_600: "new_dimensions True 1920 1080 800 600 = (Num 800, Num 600)"
  unfolding new_dimensions_def of_nat_numeral by code_simp

lemma nd_4000_2:
  "new_dimensions True 1920 1080 4000 2 = (Num 1920, Num (1080863910568919 / 1125899906842624))"
  unfolding new_dimensions_def of_nat_numeral by code_simp

lemma nd_zero_width: "new_dimensions True 0 1080 800 600 = (Num 0, Num 0)"
  unfolding new_dimensions_def of_nat_numeral of_nat_0 by code_simp


lemma od_800_600: "output_dimensions True 1920 1080 800 600 = (800, 600)"
  using to_pixels_of_nat [of 800 300] to_pixels_of_nat [of 600 150]
  by (simp add: output_dimensions_def nd_800_600)

lemma to_pixels_sliver: "to_pixels 150 (Num (1080863910568919 / 1125899906842624)) = 0"
proof -
  have "\<lfloor>1080863910568919 / 1125899906842624 :: rat\<rfloor> = 0"
    by (rule floor_unique) simp_all
  then show ?thesis
    using to_pixels_small [of "1080863910568919 / 1125899906842624" 150] by simp
qed


lemma od_zero_width: "output_dimensions True 0 1080 800 600 = (0, 0)"
  by (simp add: output_dimensions_def nd_zero_width to_pixels_zero)

text \<open>
  The ratio is a rounded quotient, and the product with it is rounded again: a 98 by 98
  source under 2 by 2 is encoded at 1 by 1, since \<open>98 * (2 / 98)\<close> evaluates to
  \<open>1.9999999999999998\<close>.
\<close>

lemma nd_98: "new_dimensions True 2 2 98 98
    = (Num (9007199254740991 / 4503599627370496), Num (9007199254740991 / 4503599627370496))"
  unfolding new_dimensions_def of_nat_numeral by code_simp

lemma to_pixels_98: "to_pixels d (Num (9007199254740991 / 4503599627370496)) = 1"
proof -
  have "\<lfloor>9007199254740991 / 4503599627370496 :: rat\<rfloor> = 1"
    by (rule floor_unique) simp_all
  then show ?thesis
    using to_pixels_small [of "9007199254740991 / 4503599627370496" d] by simp
qed

lemma rounding_loses_a_pixel: "output_dimensions True 2 2 98 98 = (1, 1)"
  by (simp add: output_dimensions_def nd_98 to_pixels_98)





text \<open>
  \<^bold>\<open>C2\<close>, as amended. The claim does not hold for every setting: the width and the
  height of a canvas are attributes with the range from \<open>0\<close> to \<open>2^31 - 1\<close>, and a larger
  number is not stored as it is. With \<open>maintainAspectRatio = false\<close> and with \<open>maxWidth\<close>
  and \<open>maxHeight\<close> at most \<open>2147483647\<close>, the encoded canvas has exactly the size
  \<open>maxWidth \<times> maxHeight\<close>, whatever the native size of the source.
\<close>

theorem stretch_dimensions:
  assumes "maxW \<le> 2147483647" and "maxH \<le> 2147483647"
  shows "output_dimensions False maxW maxH W H = (maxW, maxH)"
  using assms to_pixels_of_nat [of maxW 300] to_pixels_of_nat [of maxH 150]
  by (simp add: output_dimensions_def new_dimensions_def)

text \<open>
  The amended law at the 800 by 600 source of the specification, under 500 by 500.
\<close>

theorem stretch_dimensions_witness:
  "(500::nat) \<le> 2147483647 \<and> output_dimensions False 500 500 800 600 = (500, 500)"
  using stretch_dimensions [of 500 500 800 600] by simp

text \<open>
  The claim as stated fails at \<open>maxWidth = 2^31\<close>, where the canvas falls back to its
  default width of 300. At \<open>maxWidth = 2^32 + 5\<close> the canvas is 5 wide.
\<close>

theorem canvas_range_counterexample:
  "output_dimensions False 2147483648 100 800 600 = (300, 100)"
  by (simp add: output_dimensions_def new_dimensions_def to_pixels_def to_uint32_def)

lemma canvas_wraps: "output_dimensions False 4294967301 100 800 600 = (5, 100)"
  by (simp add: output_dimensions_def new_dimensions_def to_pixels_def to_uint32_def)

text \<open>
  \<^bold>\<open>C3\<close> (no-op scale). With \<open>maintainAspectRatio = true\<close>, a source of native size
  \<open>W \<times> H\<close> with \<open>W \<le> maxWidth\<close> and \<open>H \<le> maxHeight\<close> is encoded at exactly \<open>W \<times> H\<close>: the
  computed ratio is not below \<open>1\<close> and the image is not enlarged.
\<close>

theorem no_op_scale:
  fixes W H :: "31 word"
  assumes "unat W \<le> maxW" and "unat H \<le> maxH"
  shows "output_dimensions True maxW maxH W H = (unat W, unat H)"
proof -
  have "\<not> js_less (js_min (js_div (Num (of_nat maxW)) (of_nat (unat W)))
                 (js_div (Num (of_nat maxH)) (of_nat (unat H)))) (Num 1)"
    using ratio_not_less_1 [OF assms(1)] ratio_not_less_1 [OF assms(2)]
    by (simp add: js_min_def js_less_def)
  then have "new_dimensions True maxW maxH (unat W) (unat H)
               = (Num (of_nat (unat W)), Num (of_nat (unat H)))"
    by (simp add: new_dimensions_def)
  then show ?thesis
    using to_pixels_of_nat [OF unat_31, of 300 W] to_pixels_of_nat [OF unat_31, of 150 H]
    by (simp add: output_dimensions_def)
qed

text \<open>
  The law at the 800 by 600 source of the specification, under 1920 by 1080.
\<close>

theorem no_op_scale_witness:
  "unat (800 :: 31 word) \<le> 1920 \<and> unat (600 :: 31 word) \<le> 1080 \<and>
   output_dimensions True 1920 1080 800 600 = (800, 600)"
  using no_op_scale [of 800 1920 600 1080] by simp

section \<open>The transform as a promise\<close>




section \<open>Batches\<close>

lemma promise_all_map_Resolved: "promise_all (map Resolved xs) = Resolved xs"
  by (induction xs) simp_all

lemma promise_all_Resolved_D:
  assumes "promise_all ps = Resolved xs"
  shows "ps = map Resolved xs"
  using assms
proof (induction ps arbitrary: xs rule: promise_all.induct)
  case 1
  then show ?case by simp
next
  case (2 e ps)
  then show ?case by simp
next
  case (3 ps)
  then show ?case by (simp split: promise.splits)
next
  case (4 x ps)
  then show ?case by (auto split: promise.splits)
qed

lemma promise_all_Resolved: "promise_all ps = Resolved xs \<longleftrightarrow> ps = map Resolved xs"
  using promise_all_Resolved_D promise_all_map_Resolved by blast

lemma promise_all_Rejected_I:
  assumes "Rejected e \<in> set ps"
  shows "\<exists>e'. promise_all ps = Rejected e'"
  using assms
proof (induction ps rule: promise_all.induct)
  case 1
  then show ?case by simp
next
  case (2 e ps)
  then show ?case by simp
next
  case (3 ps)
  then show ?case by (auto split: promise.splits)
next
  case (4 x ps)
  then show ?case by (auto split: promise.splits)
qed


lemma compress_entry_compressed:
  assumes "compressedBlob img \<noteq> None"
  shows "compress_entry h st img = Resolved img"
  using assms by (auto simp: compress_entry_def)

lemma handleCompress_images:
  "images (handleCompress h st) =
     (case promise_all (map (compress_entry h st) (images st)) of
        Resolved xs \<Rightarrow> xs | Rejected e \<Rightarrow> images st | Pending \<Rightarrow> images st)"
  by (simp add: handleCompress_def Let_def split: promise.splits)


lemma handleCompress_length: "length (images (handleCompress h st)) = length (images st)"
proof (cases "promise_all (map (compress_entry h st) (images st))")
  case (Resolved xs)
  then have "map (compress_entry h st) (images st) = map Resolved xs"
    by (simp only: promise_all_Resolved)
  from arg_cong [OF this, of length] have "length (images st) = length xs" by simp
  then show ?thesis by (simp add: handleCompress_images Resolved)
next
  case (Rejected e)
  then show ?thesis by (simp add: handleCompress_images)
next
  case Pending
  then show ?thesis by (simp add: handleCompress_images)
qed

lemma handleCompress_keeps_compressed:
  assumes "i < length (images st)" and "compressedBlob (images st ! i) \<noteq> None"
  shows "images (handleCompress h st) ! i = images st ! i"
proof (cases "promise_all (map (compress_entry h st) (images st))")
  case (Resolved xs)
  then have eq: "map (compress_entry h st) (images st) = map Resolved xs"
    by (simp only: promise_all_Resolved)
  from arg_cong [OF eq, of length] have len: "length (images st) = length xs" by simp
  have "map (compress_entry h st) (images st) ! i = map Resolved xs ! i"
    by (simp only: eq)
  then have "compress_entry h st (images st ! i) = Resolved (xs ! i)"
    using assms(1) len by simp
  then have "xs ! i = images st ! i"
    using compress_entry_compressed [OF assms(2), of h st] by simp
  then show ?thesis by (simp add: handleCompress_images Resolved)
next
  case (Rejected e)
  then show ?thesis by (simp add: handleCompress_images)
next
  case Pending
  then show ?thesis by (simp add: handleCompress_images)
qed

lemma failed_entry_blocks:
  assumes "img \<in> set imgs" and "\<forall>x. compress_entry h st img \<noteq> Resolved x"
  shows "promise_all (map (compress_entry h st) imgs) \<noteq> Resolved xs"
proof
  assume "promise_all (map (compress_entry h st) imgs) = Resolved xs"
  then have eq: "map (compress_entry h st) imgs = map Resolved xs"
    by (simp only: promise_all_Resolved)
  have "compress_entry h st img \<in> set (map (compress_entry h st) imgs)"
    using assms(1) by simp
  then have "compress_entry h st img \<in> set (map Resolved xs)"
    by (simp only: eq)
  then obtain x where "compress_entry h st img = Resolved x"
    by (auto simp only: set_map image_iff)
  with assms(2) show False by blast
qed

lemma sliver_rejected:
  "compress_entry example_host batch_with_sliver (entry ''b'' (photo ''line.jpg'' 4000 2))
     = Rejected TypeError"
  by (simp add: compress_entry_def compressImage_def batch_with_sliver_def example_host_def
      initial_state_def entry_def photo_def nd_4000_2 to_pixels_sliver to_pixels_numeral)

text \<open>
  \<^bold>\<open>C4\<close>, as amended. The claim that a failure of one invocation leaves the sibling
  invocations of the batch standing does not hold: \<open>handleCompress\<close> awaits all invocations
  together and stores their results in one step. When the invocation for some entry of
  the list does not succeed, no result of the batch is stored and the list stays exactly
  as it was; when an invocation is rejected, one failure notice is shown for the whole
  batch and processing ends.
\<close>

theorem batch_all_or_nothing:
  "((\<exists>img \<in> set (images st). \<forall>x. compress_entry h st img \<noteq> Resolved x)
      \<longrightarrow> images (handleCompress h st) = images st) \<and>
   ((\<exists>img \<in> set (images st). \<exists>e. compress_entry h st img = Rejected e)
      \<longrightarrow> toasts (handleCompress h st) = toasts st @ [ErroNaCompressao] \<and>
          \<not> isProcessing (handleCompress h st))"
proof (intro conjI impI)
  assume "\<exists>img \<in> set (images st). \<forall>x. compress_entry h st img \<noteq> Resolved x"
  then obtain img where img: "img \<in> set (images st)"
    "\<forall>x. compress_entry h st img \<noteq> Resolved x"
    by blast
  show "images (handleCompress h st) = images st"
  proof (cases "promise_all (map (compress_entry h st) (images st))")
    case (Resolved xs)
    with failed_entry_blocks [OF img] have False by blast
    then show ?thesis ..
  next
    case (Rejected e)
    then show ?thesis by (simp add: handleCompress_images)
  next
    case Pending
    then show ?thesis by (simp add: handleCompress_images)
  qed
next
  assume "\<exists>img \<in> set (images st). \<exists>e. compress_entry h st img = Rejected e"
  then obtain img e0 where "img \<in> set (images st)" "compress_entry h st img = Rejected e0"
    by blast
  then have "Rejected e0 \<in> set (map (compress_entry h st) (images st))"
    by (metis imageI set_map)
  then have "\<exists>e. promise_all (map (compress_entry h st) (images st)) = Rejected e"
    by (rule promise_all_Rejected_I)
  then obtain e where e: "promise_all (map (compress_entry h st) (images st)) = Rejected e" ..
  show "toasts (handleCompress h st) = toasts st @ [ErroNaCompressao]"
    by (simp add: handleCompress_def Let_def e)
  show "\<not> isProcessing (handleCompress h st)"
    by (simp add: handleCompress_def Let_def e)
qed

text \<open>
  The claim as stated fails on a batch of three sources whose second is corrupt: the
  first and the third decode, yet after \<open>handleCompress\<close> no entry has a result, no
  notice has been shown, and the component is still processing.
\<close>

theorem corrupt_source_counterexample:
  "map (decode example_host \<circ> originalFile) (images batch_of_three)
     = [Some (4000, 2000), None, Some (800, 600)] \<and>
   map compressedBlob (images (handleCompress example_host batch_of_three)) = [None, None, None] \<and>
   toasts (handleCompress example_host batch_of_three) = [] \<and>
   isProcessing (handleCompress example_host batch_of_three)"
  by (simp add: handleCompress_def batch_of_three_def compress_entry_def compressImage_def
      example_host_def initial_state_def entry_def corrupt_def photo_def nd_4000_2000 nd_800_600
      to_pixels_numeral)

text \<open>
  The amended law on a batch whose second source makes the encoder return \<open>null\<close>.
\<close>

theorem batch_all_or_nothing_witness:
  "(\<exists>img \<in> set (images batch_with_sliver).
      \<forall>x. compress_entry example_host batch_with_sliver img \<noteq> Resolved x) \<and>
   (\<exists>img \<in> set (images batch_with_sliver).
      \<exists>e. compress_entry example_host batch_with_sliver img = Rejected e) \<and>
   images (handleCompress example_host batch_with_sliver) = images batch_with_sliver \<and>
   toasts (handleCompress example_host batch_with_sliver) = [ErroNaCompressao] \<and>
   \<not> isProcessing (handleCompress example_host batch_with_sliver)"
proof -
  have m: "entry ''b'' (photo ''line.jpg'' 4000 2) \<in> set (images batch_with_sliver)"
    by (simp add: batch_with_sliver_def)
  have 1: "\<exists>img \<in> set (images batch_with_sliver).
      \<forall>x. compress_entry example_host batch_with_sliver img \<noteq> Resolved x"
    using m sliver_rejected by (intro bexI [of _ "entry ''b'' (photo ''line.jpg'' 4000 2)"]) simp_all
  have 2: "\<exists>img \<in> set (images batch_with_sliver).
      \<exists>e. compress_entry example_host batch_with_sliver img = Rejected e"
    using m sliver_rejected by (intro bexI [of _ "entry ''b'' (photo ''line.jpg'' 4000 2)"]) simp_all
  have t: "toasts batch_with_sliver = []"
    by (simp add: batch_with_sliver_def initial_state_def)
  from batch_all_or_nothing [of batch_with_sliver example_host] 1 2 t
  show ?thesis by simp
qed


text \<open>
  \<^bold>\<open>C10\<close> (compressed entries are left alone). For an entry that already has a
  \<open>compressedBlob\<close>, the callback of \<open>handleCompress\<close> returns the entry itself, whatever
  the host and the settings, without calling the transform; so the entry is unchanged
  after \<open>handleCompress\<close>, and still unchanged after a second \<open>handleCompress\<close> run with
  any other settings and host.
\<close>

theorem compressed_entries_kept:
  assumes "i < length (images st)" and "compressedBlob (images st ! i) \<noteq> None"
  shows "compress_entry h st (images st ! i) = Resolved (images st ! i) \<and>
         images (handleCompress h st) ! i = images st ! i \<and>
         images (handleCompress h2 (st2\<lparr>images := images (handleCompress h st)\<rparr>)) ! i
           = images st ! i"
proof -
  let ?st1 = "st2\<lparr>images := images (handleCompress h st)\<rparr>"
  have 1: "images (handleCompress h st) ! i = images st ! i"
    using assms by (rule handleCompress_keeps_compressed)
  have "i < length (images ?st1)" using assms(1) by (simp add: handleCompress_length)
  moreover have "compressedBlob (images ?st1 ! i) \<noteq> None" using assms(2) 1 by simp
  ultimately have "images (handleCompress h2 ?st1) ! i = images ?st1 ! i"
    by (rule handleCompress_keeps_compressed)
  with 1 compress_entry_compressed [OF assms(2)] show ?thesis by simp
qed

text \<open>
  The law on a list whose first entry is compressed and whose second is corrupt.
\<close>

theorem compressed_entries_kept_witness:
  "(0::nat) < length (images half_done) \<and> compressedBlob (images half_done ! 0) \<noteq> None \<and>
   compress_entry example_host half_done (images half_done ! 0) = Resolved (images half_done ! 0) \<and>
   images (handleCompress example_host half_done) ! 0 = images half_done ! 0 \<and>
   images (handleCompress example_host
             (batch_with_sliver\<lparr>images := images (handleCompress example_host half_done)\<rparr>)) ! 0
     = images half_done ! 0"
proof -
  have 1: "(0::nat) < length (images half_done)"
    by (simp add: half_done_def)
  have 2: "compressedBlob (images half_done ! 0) \<noteq> None"
    by (simp add: half_done_def compressed_entry_def)
  from compressed_entries_kept [OF 1 2, of example_host example_host batch_with_sliver] 1 2
  show ?thesis by simp
qed

section \<open>Upload, savings, download\<close>

lemma upload_file_step:
  "upload_file h st (k, f) =
     (if prefix ''image/'' (mime f)
      then st\<lparr>images := images st @
                [\<lparr>id' = random_id h k, originalFile = f, compressedBlob = None,
                  originalSize = fsize f, compressedSize = None,
                  preview = createObjectURL h k f\<rparr>]\<rparr>
      else st)"
  by (simp add: upload_file_def)

lemma upload_file_images:
  "images (foldl (upload_file h) st kfs) =
     images st @ map (\<lambda>(k, f). \<lparr>id' = random_id h k, originalFile = f, compressedBlob = None,
                                 originalSize = fsize f, compressedSize = None,
                                 preview = createObjectURL h k f\<rparr>)
                 (filter (\<lambda>(k, f). prefix ''image/'' (mime f)) kfs)"
proof (induction kfs arbitrary: st)
  case Nil
  then show ?case by simp
next
  case (Cons kf kfs)
  obtain k f where kf: "kf = (k, f)" by (cases kf)
  show ?case by (simp add: Cons.IH kf upload_file_step)
qed

lemma upload_file_rest:
  "toasts (foldl (upload_file h) st kfs) = toasts st \<and>
   isProcessing (foldl (upload_file h) st kfs) = isProcessing st"
proof (induction kfs arbitrary: st)
  case Nil
  then show ?case by simp
next
  case (Cons kf kfs)
  obtain k f where kf: "kf = (k, f)" by (cases kf)
  show ?case by (simp add: Cons.IH kf upload_file_step)
qed

lemma filter_enumerate_snd:
  "map snd (filter (\<lambda>(k, f). P f) (enumerate n fs)) = filter P fs"
  by (induction fs arbitrary: n) simp_all

lemma upload_null: "handleFileUpload h None st = st"
  by (simp add: handleFileUpload_def)

text \<open>
  \<^bold>\<open>C9\<close> (upload). An upload event appends to the list one entry for each file whose
  MIME type starts with \<open>image/\<close>, in the order of the files, with \<open>originalSize\<close> the
  size of the file and neither \<open>compressedBlob\<close> nor \<open>compressedSize\<close>; the entries that were
  in the list stay in front, every other file leaves no entry, and no notice is shown.
\<close>

theorem upload_appends_image_files:
  "\<exists>new. images (handleFileUpload h files st) = images st @ new \<and>
     map originalFile new
       = filter (\<lambda>f. prefix ''image/'' (mime f)) (case files of None \<Rightarrow> [] | Some fs \<Rightarrow> fs) \<and>
     map originalSize new
       = map fsize (filter (\<lambda>f. prefix ''image/'' (mime f))
                      (case files of None \<Rightarrow> [] | Some fs \<Rightarrow> fs)) \<and>
     map compressedBlob new
       = map (\<lambda>f. None) (filter (\<lambda>f. prefix ''image/'' (mime f))
                           (case files of None \<Rightarrow> [] | Some fs \<Rightarrow> fs)) \<and>
     map compressedSize new
       = map (\<lambda>f. None) (filter (\<lambda>f. prefix ''image/'' (mime f))
                           (case files of None \<Rightarrow> [] | Some fs \<Rightarrow> fs)) \<and>
     toasts (handleFileUpload h files st) = toasts st"
proof -
  define fs where "fs = (case files of None \<Rightarrow> [] | Some fs \<Rightarrow> fs)"
  let ?P = "\<lambda>f. prefix ''image/'' (mime f)"
  let ?kfs = "filter (\<lambda>(k, f). ?P f) (enumerate 0 fs)"
  let ?mk = "\<lambda>(k, f). \<lparr>id' = random_id h k, originalFile = f, compressedBlob = None,
                          originalSize = fsize f, compressedSize = None,
                          preview = createObjectURL h k f\<rparr>"
  have s: "map snd ?kfs = filter ?P fs" by (rule filter_enumerate_snd)
  have 1: "images (handleFileUpload h files st) = images st @ map ?mk ?kfs"
    by (simp add: handleFileUpload_def upload_file_images fs_def)
  have 2: "map originalFile (map ?mk ?kfs) = map snd ?kfs"
    by (simp add: case_prod_unfold)
  have 3: "map originalSize (map ?mk ?kfs) = map fsize (map snd ?kfs)"
    by (simp add: case_prod_unfold)
  have 4: "map compressedBlob (map ?mk ?kfs) = map (\<lambda>f. None) (map snd ?kfs)"
    by (simp add: case_prod_unfold)
  have 5: "map compressedSize (map ?mk ?kfs) = map (\<lambda>f. None) (map snd ?kfs)"
    by (simp add: case_prod_unfold)
  have 6: "toasts (handleFileUpload h files st) = toasts st"
    by (simp add: handleFileUpload_def upload_file_rest)
  show ?thesis
    using 1 2 3 4 5 6 unfolding s fs_def [symmetric]
    by (intro exI [of _ "map ?mk ?kfs"] conjI)
qed

text \<open>
  \<^bold>\<open>C6\<close>, as amended. The claim that \<open>calculateSavings\<close> equals the formula for every
  compressed size does not hold at the compressed size \<open>0\<close>, which \<open>!compressed\<close> treats
  like an absent one. For every original size and every compressed size other than \<open>0\<close>,
  \<open>calculateSavings\<close> equals \<open>round((original - compressed) / original * 100)\<close>; it is
  \<open>0\<close> when the compressed size is absent or \<open>0\<close>.
\<close>

theorem savings_formula_nonzero:
  "(0 < c \<longrightarrow> calculateSavings original (Some c) = savings_formula original c) \<and>
   calculateSavings original (Some 0) = Num 0 \<and>
   calculateSavings original None = Num 0"
  by (simp add: calculateSavings_def savings_formula_def)

text \<open>
  The amended law at an original of 1000 bytes compressed to 250 bytes: 75 percent.
\<close>

theorem savings_formula_nonzero_witness:
  "(0::nat) < 250 \<and> calculateSavings 1000 (Some 250) = savings_formula 1000 250 \<and>
   savings_formula 1000 250 = Num 75"
proof -
  have "savings_formula 1000 250 = Num 75"
    unfolding savings_formula_def of_nat_numeral by code_simp
  with savings_formula_nonzero [of 250 1000] show ?thesis by simp
qed

text \<open>
  The claim as stated fails at an original of 100 bytes and a compressed size of 0:
  \<open>calculateSavings\<close> is \<open>0\<close>, the formula is \<open>100\<close>.
\<close>

theorem savings_zero_counterexample:
  "calculateSavings 100 (Some 0) = Num 0 \<and> savings_formula 100 0 = Num 100"
proof -
  have "savings_formula 100 0 = Num 100"
    unfolding savings_formula_def of_nat_numeral of_nat_0 by code_simp
  then show ?thesis by (simp add: calculateSavings_def)
qed

text \<open>
  The arithmetic is the component's: at an original of 200 bytes compressed to 171 bytes
  the quotient \<open>0.145\<close> times \<open>100\<close> evaluates to \<open>14.499999999999998\<close>, so the result is
  \<open>14\<close>, where exact arithmetic would round \<open>14.5\<close> to \<open>15\<close>.
\<close>

lemma savings_in_double_arithmetic:
  "calculateSavings 200 (Some 171) = Num 14 \<and> \<lfloor>(200 - 171) / 200 * 100 + 1 / 2 :: rat\<rfloor> = 15"
proof -
  have "savings_formula 200 171 = Num 14"
    unfolding savings_formula_def of_nat_numeral by code_simp
  then show ?thesis by (simp add: calculateSavings_def savings_formula_def)
qed

lemma js_split_hd: "js_split c s = takeWhile (\<lambda>x. x \<noteq> c) s # tl (js_split c s)"
  by (induction s) (auto split: list.splits)

lemma download_name_first_dot:
  "download_name nm format = ''compressed_'' @ takeWhile (\<lambda>x. x \<noteq> CHR ''.'') nm @ ''.'' @ format"
  by (subst download_name_def, subst js_split_hd) simp

text \<open>
  The part of a name before its first dot is its stem when the name has at most one
  dot, so for such names the download is named by the stem.
\<close>

lemma takeWhile_up_to:
  "c \<notin> set xs \<Longrightarrow> takeWhile (\<lambda>x. x \<noteq> c) (xs @ c # ys) = xs"
  by (induction xs) auto

lemma dropWhile_up_to:
  "c \<notin> set xs \<Longrightarrow> dropWhile (\<lambda>x. x \<noteq> c) (xs @ c # ys) = c # ys"
  by (induction xs) auto

lemma stem_single_dot:
  assumes "count_list nm CHR ''.'' \<le> 1"
  shows "stem nm = takeWhile (\<lambda>c. c \<noteq> CHR ''.'') nm"
proof (cases "CHR ''.'' \<in> set nm")
  case False
  then have "\<forall>x \<in> set nm. x \<noteq> CHR ''.''" by auto
  then have "takeWhile (\<lambda>c. c \<noteq> CHR ''.'') nm = nm"
    by (simp only: takeWhile_eq_all_conv)
  moreover have "stem nm = nm" using False by (simp only: stem_def if_False)
  ultimately show ?thesis by (simp only:)
next
  case True
  then obtain a b where nm: "nm = a @ CHR ''.'' # b" and a: "CHR ''.'' \<notin> set a"
    by (meson split_list_first)
  have "count_list b CHR ''.'' = 0" using assms by (simp add: nm)
  then have b: "CHR ''.'' \<notin> set b" by (simp add: count_list_0_iff)
  have 1: "takeWhile (\<lambda>c. c \<noteq> CHR ''.'') nm = a"
    unfolding nm using a by (rule takeWhile_up_to)
  have "dropWhile (\<lambda>c. c \<noteq> CHR ''.'') (rev b @ CHR ''.'' # rev a) = CHR ''.'' # rev a"
    using b by (intro dropWhile_up_to) simp
  then have "dropWhile (\<lambda>c. c \<noteq> CHR ''.'') (rev nm) = CHR ''.'' # rev a"
    by (simp add: nm)
  then have "stem nm = a" using True by (simp add: stem_def)
  with 1 show ?thesis by simp
qed

lemma download_name_single_dot:
  assumes "count_list nm CHR ''.'' \<le> 1"
  shows "download_name nm format = ''compressed_'' @ stem nm @ ''.'' @ format"
  by (simp add: download_name_first_dot stem_single_dot [OF assms])

text \<open>
  \<^bold>\<open>C7\<close>. The claim is that a compressed image whose original file name has stem \<open>S\<close> is
  downloaded as \<open>compressed_S.F\<close> for the chosen format \<open>F\<close>. The code keeps the part of
  the name before its first dot, not the name without its last extension: the file
  \<open>my.photo.jpg\<close>, whose stem is \<open>my.photo\<close>, is downloaded as \<open>compressed_my.jpeg\<close>.
\<close>

theorem download_name_cuts_at_first_dot:
  "handleDownload initial_state (compressed_entry ''a'' (photo ''my.photo.jpg'' 800 600))
     = Some \<lparr>href = example_blob, filename = ''compressed_my.jpeg''\<rparr> \<and>
   ''compressed_'' @ stem ''my.photo.jpg'' @ ''.'' @ outputFormat initial_state
     = ''compressed_my.photo.jpeg''"
  by (simp add: handleDownload_def compressed_entry_def entry_def photo_def initial_state_def
      download_name_first_dot stem_def)

end
